theory Spec2Isabelle
  imports Complex_Main "HOL-Library.Sublist"
begin

section \<open>Data model\<close>

text \<open>
  The constants of \<^verbatim>\<open>main.py\<close>. \<open>MAX_WORKERS\<close> is the size of the thread pool; the
  traversal never has more than one task in it (see \<open>submit_all\<close> below).
\<close>

definition BASE_URL :: string where
  "BASE_URL = ''http://145.239.87.46:8000/product''"

definition RETRY_LIMIT :: nat where
  "RETRY_LIMIT = 5"

definition INITIAL_RETRY_DELAY :: nat where
  "INITIAL_RETRY_DELAY = 1"

definition MAX_WORKERS :: nat where
  "MAX_WORKERS = 5"

text \<open>
  The exceptions the program meets. \<open>RequestException\<close> stands for
  \<^verbatim>\<open>requests.RequestException\<close> and every subclass of it (connection errors, timeouts,
  the \<^verbatim>\<open>HTTPError\<close> of \<^verbatim>\<open>raise_for_status\<close>); \<open>Exception msg\<close> is the plain
  \<^verbatim>\<open>Exception(msg)\<close> that \<open>fetch_product\<close> raises itself; \<open>OtherError\<close> is any
  exception that is not a \<^verbatim>\<open>RequestException\<close>.
\<close>

datatype exn =
    RequestException
  | KeyError string
  | ZeroDivisionError
  | Exception string
  | OtherError

text \<open>
  A product is the JSON object of one page. The fields have the types of the page shape
  the service documents; a key the object does not carry is \<open>None\<close> (for
  \<open>next_product_token\<close> also a JSON null), so that \<^verbatim>\<open>product['k']\<close> on a missing key
  is a \<open>KeyError\<close> of the model and \<^verbatim>\<open>product.get('k')\<close> is the field itself.
\<close>

record product =
  product_id :: "int option"
  product_name :: "string option"
  category :: "string option"
  price :: "rat option"
  next_product_token :: "string option"

text \<open>
  What \<^verbatim>\<open>requests.get\<close> hands back: the status code and what \<^verbatim>\<open>response.json()\<close>
  does (it returns the parsed object or raises).
\<close>

record response =
  status_code :: nat
  json :: "exn + product"

text \<open>
  The server and the network are a parameter: \<open>srv n url\<close> is what the \<open>n\<close>-th call of
  \<^verbatim>\<open>requests.get\<close> of the run (counted from 0) does when it is given \<open>url\<close>: it
  raises, or it returns a response.
\<close>

type_synonym server = "nat \<Rightarrow> string \<Rightarrow> exn + response"

text \<open>The lines the traversal prints (the elapsed time in them is left out).\<close>

datatype line =
    Added int nat
  | AllFetched
  | ErrorOccurred exn
  | FutureError exn

text \<open>The effects of a run, in the order they happen.\<close>

datatype io = Get string | Sleep nat | Print line

record world =
  requests :: nat
  trace :: "io list"

definition get_event :: "string \<Rightarrow> world \<Rightarrow> world" where
  "get_event url w = w\<lparr>requests := Suc (requests w), trace := trace w @ [Get url]\<rparr>"

definition sleep :: "nat \<Rightarrow> world \<Rightarrow> world" where
  "sleep d w = w\<lparr>trace := trace w @ [Sleep d]\<rparr>"

definition print :: "line \<Rightarrow> world \<Rightarrow> world" where
  "print l w = w\<lparr>trace := trace w @ [Print l]\<rparr>"

section \<open>fetch_product\<close>

text \<open>Python's truth value of an optional string: \<^verbatim>\<open>None\<close> and \<^verbatim>\<open>''\<close> are false.\<close>

fun truthy :: "string option \<Rightarrow> bool" where
  "truthy None = False"
| "truthy (Some s) = (s \<noteq> [])"

text \<open>
  Lines 29 to 31. \<open>quote\<close> is \<^verbatim>\<open>urllib.parse.quote\<close>, a parameter of the model.
\<close>

definition request_url :: "(string \<Rightarrow> string) \<Rightarrow> string option \<Rightarrow> string" where
  "request_url quote next_token =
     (case next_token of
        None \<Rightarrow> BASE_URL
      | Some t \<Rightarrow> if t \<noteq> [] then BASE_URL @ ''?next_product_token='' @ quote t else BASE_URL)"

text \<open>
  \<^verbatim>\<open>response.raise_for_status()\<close> of the requests library raises \<^verbatim>\<open>HTTPError\<close>, a
  \<^verbatim>\<open>RequestException\<close>, for a status from 400 to 599 and does nothing otherwise.
\<close>

definition raise_for_status :: "response \<Rightarrow> exn + unit" where
  "raise_for_status r =
     (if 400 \<le> status_code r \<and> status_code r < 600 then Inl RequestException else Inr ())"

text \<open>
  The body of the \<^verbatim>\<open>try\<close> block of lines 36 to 42, after \<^verbatim>\<open>requests.get\<close> has
  answered with \<open>r\<close>: \<open>Inl e\<close> when \<open>e\<close> is raised, \<open>Inr None\<close> on the 503 branch (which
  sleeps and continues) and \<open>Inr (Some p)\<close> when \<open>p\<close> is returned.
\<close>

definition try_body :: "exn + response \<Rightarrow> exn + product option" where
  "try_body r =
     (case r of
        Inl e \<Rightarrow> Inl e
      | Inr resp \<Rightarrow>
          if status_code resp = 503 then Inr None
          else (case raise_for_status resp of
                  Inl e \<Rightarrow> Inl e
                | Inr _ \<Rightarrow> (case json resp of Inl e \<Rightarrow> Inl e | Inr p \<Rightarrow> Inr (Some p))))"

text \<open>
  The \<^verbatim>\<open>for attempt in range(RETRY_LIMIT)\<close> loop, by the number of attempts left. The
  result is \<open>None\<close> when the loop runs out, \<open>Some (Inr p)\<close> when it returns \<open>p\<close> and
  \<open>Some (Inl e)\<close> when an exception the handler does not catch leaves it. Both the 503
  branch and the handler sleep and double the delay, also after the last attempt.
\<close>

fun retry_loop ::
  "server \<Rightarrow> string \<Rightarrow> nat \<Rightarrow> nat \<Rightarrow> world \<Rightarrow> (exn + product) option \<times> world" where
  "retry_loop srv url 0 retry_delay w = (None, w)"
| "retry_loop srv url (Suc k) retry_delay w =
     (case try_body (srv (requests w) url) of
        Inr (Some p) \<Rightarrow> (Some (Inr p), get_event url w)
      | Inr None \<Rightarrow> retry_loop srv url k (retry_delay * 2) (sleep retry_delay (get_event url w))
      | Inl e \<Rightarrow>
          if e = RequestException
          then retry_loop srv url k (retry_delay * 2) (sleep retry_delay (get_event url w))
          else (Some (Inl e), get_event url w))"

text \<open>Python's \<^verbatim>\<open>str\<close> of the token inside the f-string of line 47.\<close>

fun str_of_token :: "string option \<Rightarrow> string" where
  "str_of_token None = ''None''"
| "str_of_token (Some t) = t"

definition fetch_product ::
  "(string \<Rightarrow> string) \<Rightarrow> server \<Rightarrow> string option \<Rightarrow> world \<Rightarrow> (exn + product) \<times> world" where
  "fetch_product quote srv next_token w =
     (case retry_loop srv (request_url quote next_token) RETRY_LIMIT INITIAL_RETRY_DELAY w of
        (Some r, w') \<Rightarrow> (r, w')
      | (None, w') \<Rightarrow>
          (Inl (Exception (''Failed to fetch product data for token: ''
                 @ str_of_token next_token @ '' after several retries'')), w'))"

section \<open>fetch_all_products_parallel\<close>

text \<open>The variables of the traversal and the world it runs in.\<close>

record state =
  products :: "product list"
  token :: "string option"
  io :: world

definition say :: "line \<Rightarrow> state \<Rightarrow> state" where
  "say l st = st\<lparr>io := print l (io st)\<rparr>"

text \<open>
  \<^verbatim>\<open>executor.submit(fetch_product, token) for token in tokens\<close>: each task is run by a
  worker of the pool while the coordinator waits in \<^verbatim>\<open>as_completed\<close>. The future holds
  what the task returned or raised. The source submits the one-element list
  \<^verbatim>\<open>[next_product_token]\<close>, for which there is a single order of events.
\<close>

fun submit_all ::
  "(string \<Rightarrow> string) \<Rightarrow> server \<Rightarrow> string option list \<Rightarrow> world \<Rightarrow> (exn + product) list \<times> world" where
  "submit_all quote srv [] w = ([], w)"
| "submit_all quote srv (t # ts) w =
     (case fetch_product quote srv t w of
        (r, w1) \<Rightarrow> (case submit_all quote srv ts w1 of (rs, w2) \<Rightarrow> (r # rs, w2)))"

text \<open>
  The loop \<^verbatim>\<open>for future in as_completed(future_to_token)\<close> of lines 84 to 97. A future
  that raised, and a result without \<^verbatim>\<open>product_id\<close> (a \<open>KeyError\<close> inside the
  \<^verbatim>\<open>print\<close>, after the append), are caught by the inner handler; \<^verbatim>\<open>break\<close> leaves
  the loop.
\<close>

fun for_futures :: "(exn + product) list \<Rightarrow> state \<Rightarrow> state" where
  "for_futures [] st = st"
| "for_futures (future # futures) st =
     (case future of
        Inl e \<Rightarrow> for_futures futures (say (FutureError e) st)
      | Inr result \<Rightarrow>
          (let st1 = st\<lparr>products := products st @ [result]\<rparr> in
           case product_id result of
             None \<Rightarrow> for_futures futures (say (FutureError (KeyError ''product_id'')) st1)
           | Some i \<Rightarrow>
               (let st2 = say (Added i (length (products st1))) st1;
                    st3 = st2\<lparr>token := next_product_token result\<rparr>
                in if \<not> truthy (token st3) then say AllFetched st3
                   else for_futures futures st3)))"

text \<open>
  One round of \<^verbatim>\<open>while True\<close> (lines 62 to 104). The boolean says whether the round
  ends the loop with \<^verbatim>\<open>break\<close>. Every exception of the outer \<^verbatim>\<open>try\<close> block is caught
  by the handler of line 102, which prints and lets the loop go on.
\<close>

definition iteration :: "(string \<Rightarrow> string) \<Rightarrow> server \<Rightarrow> state \<Rightarrow> bool \<times> state" where
  "iteration quote srv st =
     (case fetch_product quote srv (token st) (io st) of
        (Inl e, w1) \<Rightarrow> (False, say (ErrorOccurred e) (st\<lparr>io := w1\<rparr>))
      | (Inr product_data, w1) \<Rightarrow>
          (let st1 = st\<lparr>products := products st @ [product_data], io := w1\<rparr> in
           case product_id product_data of
             None \<Rightarrow> (False, say (ErrorOccurred (KeyError ''product_id'')) st1)
           | Some i \<Rightarrow>
               (let st2 = say (Added i (length (products st1))) st1;
                    st3 = st2\<lparr>token := next_product_token product_data\<rparr>
                in if \<not> truthy (token st3) then (True, say AllFetched st3)
                   else
                     (case submit_all quote srv [token st3] (io st3) of
                        (future_to_token, w2) \<Rightarrow>
                          (let st4 = for_futures future_to_token (st3\<lparr>io := w2\<rparr>)
                           in if \<not> truthy (token st4) then (True, st4) else (False, st4))))))"

text \<open>
  \<^verbatim>\<open>while True\<close> has no bound of its own: \<open>fuel\<close> bounds the number of rounds, and
  \<open>None\<close> says that the loop has not ended within it.
\<close>

fun fetch_loop :: "nat \<Rightarrow> (string \<Rightarrow> string) \<Rightarrow> server \<Rightarrow> state \<Rightarrow> state option" where
  "fetch_loop 0 quote srv st = None"
| "fetch_loop (Suc fuel) quote srv st =
     (case iteration quote srv st of
        (True, st') \<Rightarrow> Some st'
      | (False, st') \<Rightarrow> fetch_loop fuel quote srv st')"

definition initial :: state where
  "initial = \<lparr>products = [], token = None, io = \<lparr>requests = 0, trace = []\<rparr>\<rparr>"

text \<open>The function returns \<open>products\<close>; the world it leaves is returned beside it.\<close>

definition fetch_all_products_parallel ::
  "nat \<Rightarrow> (string \<Rightarrow> string) \<Rightarrow> server \<Rightarrow> (product list \<times> world) option" where
  "fetch_all_products_parallel fuel quote srv =
     map_option (\<lambda>st. (products st, io st)) (fetch_loop fuel quote srv initial)"

section \<open>The traversal the claims compare with\<close>



text \<open>
  What a run shows: the products, the token, the number of requests and the trace, where
  the two wordings of the error line (\<^verbatim>\<open>Error occurred\<close> and
  \<^verbatim>\<open>Error occurred while processing a future\<close>) are not told apart.
\<close>

fun wording :: "io \<Rightarrow> io" where
  "wording (Print (FutureError e)) = Print (ErrorOccurred e)"
| "wording ev = ev"


text \<open>
  The answers of the server the claims speak of. \<open>answers r p\<close>: the attempt that got
  \<open>r\<close> succeeds with page \<open>p\<close>. \<open>retryable r\<close>: the attempt that got \<open>r\<close> ends in the
  503 branch or in the handler of \<^verbatim>\<open>RequestException\<close>.
\<close>

definition answers :: "exn + response \<Rightarrow> product \<Rightarrow> bool" where
  "answers r p =
     (case r of
        Inl e \<Rightarrow> False
      | Inr resp \<Rightarrow>
          status_code resp \<noteq> 503 \<and> \<not> (400 \<le> status_code resp \<and> status_code resp < 600)
          \<and> json resp = Inr p)"

definition http_error :: "exn + response \<Rightarrow> bool" where
  "http_error r =
     (case r of
        Inl e \<Rightarrow> False
      | Inr resp \<Rightarrow> 400 \<le> status_code resp \<and> status_code resp < 600)"

definition retryable :: "exn + response \<Rightarrow> bool" where
  "retryable r =
     (case r of
        Inl e \<Rightarrow> e = RequestException
      | Inr resp \<Rightarrow>
          status_code resp = 503 \<or> (400 \<le> status_code resp \<and> status_code resp < 600)
          \<or> json resp = Inl RequestException)"

text \<open>
  A finite token chain served without failure from request \<open>n\<close> on: the request for
  \<open>tok\<close> is answered with the first page, every page but the last carries the token of
  the next one, the last page carries none, and every page has its identifier.
\<close>

fun chain_served ::
  "(string \<Rightarrow> string) \<Rightarrow> server \<Rightarrow> nat \<Rightarrow> string option \<Rightarrow> product list \<Rightarrow> bool" where
  "chain_served quote srv n tok [] = False"
| "chain_served quote srv n tok [p] =
     (answers (srv n (request_url quote tok)) p \<and> product_id p \<noteq> None
      \<and> \<not> truthy (next_product_token p))"
| "chain_served quote srv n tok (p # p' # ps) =
     (answers (srv n (request_url quote tok)) p \<and> product_id p \<noteq> None
      \<and> truthy (next_product_token p)
      \<and> chain_served quote srv (Suc n) (next_product_token p) (p' # ps))"

section \<open>analyze_products\<close>

text \<open>
  The dictionary \<open>most_expensive_fashion\<close>: it starts as \<^verbatim>\<open>{'price': -1}\<close>, without
  the keys \<^verbatim>\<open>'id'\<close> and \<^verbatim>\<open>'name'\<close>.
\<close>

record most_expensive =
  mef_id :: "int option"
  mef_name :: "string option"
  mef_price :: rat

definition sentinel :: most_expensive where
  "sentinel = \<lparr>mef_id = None, mef_name = None, mef_price = - 1\<rparr>"

text \<open>The variables of the loop of lines 128 to 141.\<close>

record acc =
  category_counts :: "string \<rightharpoonup> nat"
  most_expensive_fashion :: most_expensive
  toys_games_total_price :: rat
  toys_games_count :: nat

text \<open>Lines 132 to 137; the dictionary display reads \<open>product_id\<close> before \<open>product_name\<close>.\<close>

definition fashion_step :: "string \<Rightarrow> product \<Rightarrow> acc \<Rightarrow> exn + acc" where
  "fashion_step c p a =
     (if c = ''Fashion'' then
        (case price p of
           None \<Rightarrow> Inl (KeyError ''price'')
         | Some pr \<Rightarrow>
             if pr > mef_price (most_expensive_fashion a) then
               (case product_id p of
                  None \<Rightarrow> Inl (KeyError ''product_id'')
                | Some i \<Rightarrow>
                    (case product_name p of
                       None \<Rightarrow> Inl (KeyError ''product_name'')
                     | Some nm \<Rightarrow>
                         Inr (a\<lparr>most_expensive_fashion :=
                                  \<lparr>mef_id = Some i, mef_name = Some nm, mef_price = pr\<rparr>\<rparr>)))
             else Inr a)
      else Inr a)"

text \<open>Lines 139 to 141.\<close>

definition toys_step :: "string \<Rightarrow> product \<Rightarrow> acc \<Rightarrow> exn + acc" where
  "toys_step c p a =
     (if c = ''Toys & Games'' then
        (case price p of
           None \<Rightarrow> Inl (KeyError ''price'')
         | Some pr \<Rightarrow>
             Inr (a\<lparr>toys_games_total_price := toys_games_total_price a + pr,
                    toys_games_count := toys_games_count a + 1\<rparr>))
      else Inr a)"

text \<open>The loop over the products; \<open>category_counts\<close> is a \<^verbatim>\<open>defaultdict(int)\<close>.\<close>

fun analyze_loop :: "product list \<Rightarrow> acc \<Rightarrow> exn + acc" where
  "analyze_loop [] a = Inr a"
| "analyze_loop (p # ps) a =
     (case category p of
        None \<Rightarrow> Inl (KeyError ''category'')
      | Some c \<Rightarrow>
          (let a1 = a\<lparr>category_counts := (category_counts a)
                        (c \<mapsto> (case category_counts a c of None \<Rightarrow> 0 | Some k \<Rightarrow> k) + 1)\<rparr>
           in case fashion_step c p a1 of
                Inl e \<Rightarrow> Inl e
              | Inr a2 \<Rightarrow>
                  (case toys_step c p a2 of
                     Inl e \<Rightarrow> Inl e
                   | Inr a3 \<Rightarrow> analyze_loop ps a3)))"

text \<open>
  Python's \<^verbatim>\<open>/\<close>: it raises on a zero divisor. Prices are rationals here, so the
  sum of \<open>toys_step\<close> and this quotient are exact, where Python adds and divides
  doubles and rounds; comparisons of prices are the same in both.
\<close>

definition truediv :: "rat \<Rightarrow> nat \<Rightarrow> exn + rat" where
  "truediv a n = (if n = 0 then Inl ZeroDivisionError else Inr (a / of_nat n))"

definition analyze_products ::
  "product list \<Rightarrow> exn + (nat \<times> (string \<rightharpoonup> nat) \<times> most_expensive \<times> rat)" where
  "analyze_products ps =
     (case analyze_loop ps \<lparr>category_counts = Map.empty, most_expensive_fashion = sentinel,
                            toys_games_total_price = 0, toys_games_count = 0\<rparr> of
        Inl e \<Rightarrow> Inl e
      | Inr a \<Rightarrow>
          (case (if toys_games_count a \<noteq> 0
                 then truediv (toys_games_total_price a) (toys_games_count a)
                 else Inr 0) of
             Inl e \<Rightarrow> Inl e
           | Inr average_price_toys_games \<Rightarrow>
               Inr (length ps, category_counts a, most_expensive_fashion a,
                    average_price_toys_games)))"

text \<open>Lines 177 to 181 of \<open>main\<close>: the third line of the report.\<close>

datatype report = MostExpensiveFashion int string rat | NoFashionProducts

definition fashion_report :: "most_expensive \<Rightarrow> exn + report" where
  "fashion_report m =
     (if mef_price m \<ge> 0 then
        (case mef_id m of
           None \<Rightarrow> Inl (KeyError ''id'')
         | Some i \<Rightarrow>
             (case mef_name m of
                None \<Rightarrow> Inl (KeyError ''name'')
              | Some nm \<Rightarrow> Inr (MostExpensiveFashion i nm (mef_price m))))
      else Inr NoFashionProducts)"

section \<open>Concrete servers\<close>

text \<open>
  The delays and requests of \<open>k\<close> failed attempts that start with delay \<open>d\<close>.
\<close>

definition backoff :: "string \<Rightarrow> nat \<Rightarrow> nat \<Rightarrow> io list" where
  "backoff url d k = concat (map (\<lambda>i. [Get url, Sleep (d * 2 ^ i)]) [0..<k])"

definition page :: "int \<Rightarrow> string \<Rightarrow> string option \<Rightarrow> product" where
  "page i c t = \<lparr>product_id = Some i, product_name = Some ''item'', category = Some c,
                 price = Some 10, next_product_token = t\<rparr>"

definition ok :: "product \<Rightarrow> exn + response" where
  "ok p = Inr \<lparr>status_code = 200, json = Inr p\<rparr>"

definition status :: "nat \<Rightarrow> exn + response" where
  "status s = Inr \<lparr>status_code = s, json = Inl OtherError\<rparr>"

definition empty_world :: world where
  "empty_world = \<lparr>requests = 0, trace = []\<rparr>"

definition url_B :: string where
  "url_B = ''http://145.239.87.46:8000/product?next_product_token=B''"

definition url_C :: string where
  "url_C = ''http://145.239.87.46:8000/product?next_product_token=C''"

text \<open>Three pages, chained by the tokens B and C.\<close>

definition shop :: server where
  "shop n url =
     (if url = BASE_URL then ok (page 1 ''Fashion'' (Some ''B''))
      else if url = url_B then ok (page 2 ''Toys & Games'' (Some ''C''))
      else if url = url_C then ok (page 3 ''Fashion'' None)
      else status 404)"



text \<open>The first request of the run is answered with 400, the following ones with a page.\<close>

definition once_400 :: server where
  "once_400 n url = (if n = 0 then status 400 else ok (page 2 ''Toys & Games'' None))"

text \<open>Two pages that carry the same identifier.\<close>

definition twins :: server where
  "twins n url =
     (if url = BASE_URL then ok (page 7 ''Fashion'' (Some ''B''))
      else ok (page 7 ''Toys & Games'' None))"

text \<open>A single page, whose token is the empty string.\<close>

definition single :: server where
  "single n url = ok (page 1 ''Fashion'' (Some []))"

section \<open>Predicates and inputs for analyze_products\<close>

text \<open>A product that carries the four keys \<open>analyze_products\<close> reads.\<close>

definition has_keys :: "product \<Rightarrow> bool" where
  "has_keys p =
     (category p \<noteq> None \<and> price p \<noteq> None \<and> product_id p \<noteq> None \<and> product_name p \<noteq> None)"

text \<open>
  \<open>m\<close> was built from a Fashion product of \<open>S\<close> whose price is above the sentinel's.
\<close>

definition selected_from :: "product set \<Rightarrow> most_expensive \<Rightarrow> bool" where
  "selected_from S m =
     (- 1 < mef_price m
      \<and> (\<exists>p\<in>S. category p = Some ''Fashion'' \<and> price p = Some (mef_price m)
                 \<and> product_id p = mef_id m \<and> product_name p = mef_name m))"

text \<open>A Fashion product whose price is below the sentinel's, and one priced at 25.\<close>

definition refund :: product where
  "refund = \<lparr>product_id = Some 4, product_name = Some ''voucher'', category = Some ''Fashion'',
             price = Some (- 5), next_product_token = None\<rparr>"

definition coat :: product where
  "coat = \<lparr>product_id = Some 5, product_name = Some ''coat'', category = Some ''Fashion'',
           price = Some 25, next_product_token = None\<rparr>"

section \<open>Facts about fetch_product\<close>

lemma say_simps [simp]:
  "products (say l st) = products st" "token (say l st) = token st"
  "requests (io (say l st)) = requests (io st)"
  "trace (io (say l st)) = trace (io st) @ [Print l]"
  by (simp_all add: say_def print_def)

lemma get_event_simps [simp]:
  "requests (get_event u w) = Suc (requests w)" "trace (get_event u w) = trace w @ [Get u]"
  by (simp_all add: get_event_def)

lemma sleep_simps [simp]:
  "requests (sleep d w) = requests w" "trace (sleep d w) = trace w @ [Sleep d]"
  by (simp_all add: sleep_def)

lemma try_body_answers: "answers r p \<Longrightarrow> try_body r = Inr (Some p)"
  by (auto simp: answers_def try_body_def raise_for_status_def split: sum.splits)

lemma try_body_retryable:
  "retryable r \<Longrightarrow> try_body r = Inr None \<or> try_body r = Inl RequestException"
  by (auto simp: retryable_def try_body_def raise_for_status_def split: sum.splits)

lemma http_error_retryable: "http_error r \<Longrightarrow> retryable r"
  by (auto simp: http_error_def retryable_def split: sum.splits)

lemma retry_loop_retryable_step:
  "retryable (srv (requests w) url) \<Longrightarrow>
   retry_loop srv url (Suc k) d w = retry_loop srv url k (d * 2) (sleep d (get_event url w))"
  using try_body_retryable [of "srv (requests w) url"] by auto

lemma fetch_product_answers:
  "answers (srv (requests w) (request_url q tok)) p \<Longrightarrow>
   fetch_product q srv tok w = (Inr p, get_event (request_url q tok) w)"
  by (simp add: fetch_product_def RETRY_LIMIT_def numeral_eq_Suc try_body_answers)

lemma backoff_Suc: "backoff url d (Suc k) = Get url # Sleep d # backoff url (d * 2) k"
  unfolding backoff_def by (simp only: map_upt_Suc) (simp add: mult.assoc)

lemma retry_loop_retryable:
  "(\<And>n. requests w \<le> n \<Longrightarrow> retryable (srv n url)) \<Longrightarrow>
   retry_loop srv url k d w =
     (None, \<lparr>requests = requests w + k, trace = trace w @ backoff url d k\<rparr>)"
proof (induction k arbitrary: d w)
  case 0
  show ?case by (simp add: backoff_def)
next
  case (Suc k)
  let ?w1 = "sleep d (get_event url w)"
  have "retryable (srv (requests w) url)" using Suc.prems by simp
  then have step: "retry_loop srv url (Suc k) d w = retry_loop srv url k (d * 2) ?w1"
    by (rule retry_loop_retryable_step)
  have "\<And>n. requests ?w1 \<le> n \<Longrightarrow> retryable (srv n url)"
    using Suc.prems by simp
  from Suc.IH [where w = ?w1 and d = "d * 2", OF this] step show ?case
    by (simp add: backoff_Suc)
qed

lemma fetch_product_retryable:
  assumes "\<And>n. requests w \<le> n \<Longrightarrow> retryable (srv n (request_url quote tok))"
  shows "fetch_product quote srv tok w =
           (Inl (Exception (''Failed to fetch product data for token: ''
                   @ str_of_token tok @ '' after several retries'')),
            \<lparr>requests = requests w + RETRY_LIMIT,
               trace = trace w @ backoff (request_url quote tok) INITIAL_RETRY_DELAY RETRY_LIMIT\<rparr>)"
  unfolding fetch_product_def
  by (simp add: retry_loop_retryable [where srv = srv, OF assms])

text \<open>
  C4. When every attempt for a token ends in a retryable failure, \<open>fetch_product\<close> makes
  exactly \<open>RETRY_LIMIT\<close> = 5 requests, sleeps 1, 2, 4, 8 seconds between consecutive
  attempts (the delay starts at \<open>INITIAL_RETRY_DELAY\<close> and doubles; a last sleep of 16
  follows the fifth attempt) and then raises the exception whose message names the token.
\<close>

theorem fetch_product_exhausts_retries:
  assumes "\<And>n. requests w \<le> n \<Longrightarrow> retryable (srv n (request_url quote tok))"
  shows "fetch_product quote srv tok w =
           (Inl (Exception (''Failed to fetch product data for token: ''
                   @ str_of_token tok @ '' after several retries'')),
            \<lparr>requests = requests w + RETRY_LIMIT,
               trace = trace w @ backoff (request_url quote tok) INITIAL_RETRY_DELAY RETRY_LIMIT\<rparr>)
         \<and> backoff (request_url quote tok) INITIAL_RETRY_DELAY RETRY_LIMIT =
             [Get (request_url quote tok), Sleep 1, Get (request_url quote tok), Sleep 2,
              Get (request_url quote tok), Sleep 4, Get (request_url quote tok), Sleep 8,
              Get (request_url quote tok), Sleep 16]"
proof -
  have "backoff (request_url quote tok) INITIAL_RETRY_DELAY RETRY_LIMIT =
             [Get (request_url quote tok), Sleep 1, Get (request_url quote tok), Sleep 2,
              Get (request_url quote tok), Sleep 4, Get (request_url quote tok), Sleep 8,
              Get (request_url quote tok), Sleep 16]"
    by (simp add: RETRY_LIMIT_def INITIAL_RETRY_DELAY_def numeral_eq_Suc backoff_Suc)
       (simp add: backoff_def)
  with fetch_product_retryable [where srv = srv, OF assms] show ?thesis by simp
qed

theorem fetch_product_exhausts_retries_witness:
  "fetch_product (\<lambda>s. s) (\<lambda>n url. status 503) (Some ''B'') empty_world =
     (Inl (Exception ''Failed to fetch product data for token: B after several retries''),
      \<lparr>requests = 5,
         trace = [Get url_B, Sleep 1, Get url_B, Sleep 2, Get url_B, Sleep 4,
                  Get url_B, Sleep 8, Get url_B, Sleep 16]\<rparr>)"
  using fetch_product_exhausts_retries
    [of empty_world "\<lambda>n url. status 503" "\<lambda>s. s" "Some ''B''"]
  by (simp add: retryable_def status_def empty_world_def request_url_def BASE_URL_def
      RETRY_LIMIT_def url_B_def)

text \<open>
  C3, as the claim states it, fails: the first request is answered with 400, and
  \<open>fetch_product\<close> sleeps one second, asks again and returns the page.
\<close>

theorem fatal_status_counterexample:
  "fetch_product (\<lambda>s. s) once_400 (Some ''B'') empty_world =
     (Inr (page 2 ''Toys & Games'' None),
      \<lparr>requests = 2, trace = [Get url_B, Sleep 1, Get url_B]\<rparr>)"
  by (simp add: fetch_product_def RETRY_LIMIT_def INITIAL_RETRY_DELAY_def numeral_eq_Suc
      once_400_def status_def ok_def try_body_def raise_for_status_def empty_world_def
      request_url_def BASE_URL_def url_B_def get_event_def sleep_def)

lemma retry_loop_answers:
  "answers (srv (requests w) url) p \<Longrightarrow>
   retry_loop srv url (Suc k) d w = (Some (Inr p), get_event url w)"
  by (simp add: try_body_answers)

text \<open>
  C3, amended. A response with an HTTP error status (400 to 599, so 400 as well as 503)
  is not fatal: the attempt sleeps the current delay, doubles it and the next attempt
  follows, as long as attempts are left; a single such response followed by a success
  makes \<open>fetch_product\<close> return the page after one sleep of \<open>INITIAL_RETRY_DELAY\<close>.
\<close>

theorem http_error_is_retried:
  assumes "http_error (srv (requests w) (request_url quote tok))"
  shows "retry_loop srv (request_url quote tok) (Suc k) d w =
           retry_loop srv (request_url quote tok) k (d * 2)
             (sleep d (get_event (request_url quote tok) w))
         \<and> (answers (srv (Suc (requests w)) (request_url quote tok)) p \<longrightarrow>
              fetch_product quote srv tok w =
                (Inr p, get_event (request_url quote tok)
                          (sleep INITIAL_RETRY_DELAY (get_event (request_url quote tok) w))))"
proof -
  let ?url = "request_url quote tok"
  let ?w1 = "sleep INITIAL_RETRY_DELAY (get_event ?url w)"
  have r: "retryable (srv (requests w) ?url)"
    using assms by (rule http_error_retryable)
  have first: "retry_loop srv ?url (Suc k) d w = retry_loop srv ?url k (d * 2) (sleep d (get_event ?url w))"
    for k d
    using r by (rule retry_loop_retryable_step)
  have "fetch_product quote srv tok w = (Inr p, get_event ?url ?w1)"
    if a: "answers (srv (Suc (requests w)) ?url) p"
  proof -
    have "retry_loop srv ?url RETRY_LIMIT INITIAL_RETRY_DELAY w =
            retry_loop srv ?url (Suc (Suc 3)) INITIAL_RETRY_DELAY w"
      by (simp add: RETRY_LIMIT_def)
    also have "\<dots> = retry_loop srv ?url (Suc 3) (INITIAL_RETRY_DELAY * 2) ?w1"
      by (rule first)
    also have "\<dots> = (Some (Inr p), get_event ?url ?w1)"
      by (rule retry_loop_answers) (simp add: a)
    finally show ?thesis
      unfolding fetch_product_def by simp
  qed
  with first show ?thesis by blast
qed

theorem http_error_is_retried_witness:
  "fetch_product (\<lambda>s. s) once_400 None empty_world =
     (Inr (page 2 ''Toys & Games'' None),
      \<lparr>requests = 2, trace = [Get BASE_URL, Sleep 1, Get BASE_URL]\<rparr>)"
  using http_error_is_retried
    [where srv = once_400 and w = empty_world and quote = "\<lambda>s. s" and tok = None
       and p = "page 2 ''Toys & Games'' None"]
  by (simp add: http_error_def answers_def once_400_def status_def ok_def empty_world_def
      request_url_def INITIAL_RETRY_DELAY_def get_event_def sleep_def)

section \<open>The request URL\<close>

lemma retry_loop_gets:
  "retry_loop srv url k d w = (r, w') \<Longrightarrow> Get u \<in> set (trace w') \<Longrightarrow>
   Get u \<in> set (trace w) \<or> u = url"
proof (induction k arbitrary: d w)
  case 0
  then show ?case by simp
next
  case (Suc k)
  show ?case
  proof (cases "retry_loop srv url (Suc k) d w =
                  retry_loop srv url k (d * 2) (sleep d (get_event url w))")
    case True
    with Suc.prems(1) have "retry_loop srv url k (d * 2) (sleep d (get_event url w)) = (r, w')"
      by simp
    from Suc.IH [OF this Suc.prems(2)] show ?thesis by auto
  next
    case False
    then have "w' = get_event url w"
      using Suc.prems(1) by (auto split: sum.splits option.splits if_splits)
    with Suc.prems(2) show ?thesis by auto
  qed
qed

text \<open>
  C7. Without a token, or with the empty one, the URL is the base URL alone; with a
  non-empty token it is the base URL, \<^verbatim>\<open>?next_product_token=\<close> and the quoted token;
  and every request \<open>fetch_product\<close> makes goes to that URL.
\<close>

theorem request_url_of_token:
  "request_url quote None = BASE_URL
   \<and> request_url quote (Some []) = BASE_URL
   \<and> (t \<noteq> [] \<longrightarrow> request_url quote (Some t) = BASE_URL @ ''?next_product_token='' @ quote t)
   \<and> (Get u \<in> set (trace (snd (fetch_product quote srv tok w))) \<longrightarrow>
        Get u \<in> set (trace w) \<or> u = request_url quote tok)"
proof -
  have "Get u \<in> set (trace w) \<or> u = request_url quote tok"
    if g: "Get u \<in> set (trace (snd (fetch_product quote srv tok w)))"
  proof -
    obtain r w' where
      rl: "retry_loop srv (request_url quote tok) RETRY_LIMIT INITIAL_RETRY_DELAY w = (r, w')"
      by (cases "retry_loop srv (request_url quote tok) RETRY_LIMIT INITIAL_RETRY_DELAY w")
    then have "snd (fetch_product quote srv tok w) = w'"
      by (simp add: fetch_product_def split: option.splits)
    with g have "Get u \<in> set (trace w')" by simp
    with rl show ?thesis by (rule retry_loop_gets)
  qed
  then show ?thesis by (simp add: request_url_def)
qed

theorem request_url_of_token_witness:
  "request_url (\<lambda>s. concat (map (\<lambda>c. if c = CHR '' '' then ''%20'' else [c]) s)) (Some ''a b'')
     = ''http://145.239.87.46:8000/product?next_product_token=a%20b''
   \<and> Get url_B \<in> set (trace (snd (fetch_product (\<lambda>s. s) shop (Some ''B'') empty_world)))
   \<and> url_B = request_url (\<lambda>s. s) (Some ''B'')"
proof -
  have g: "Get url_B \<in> set (trace (snd (fetch_product (\<lambda>s. s) shop (Some ''B'') empty_world)))"
    by (simp add: fetch_product_def RETRY_LIMIT_def numeral_eq_Suc shop_def ok_def
        try_body_def raise_for_status_def request_url_def BASE_URL_def url_B_def empty_world_def)
  from request_url_of_token
    [where quote = "\<lambda>s. concat (map (\<lambda>c. if c = CHR '' '' then ''%20'' else [c]) s)"
       and t = "''a b''"]
  have 1: "request_url (\<lambda>s. concat (map (\<lambda>c. if c = CHR '' '' then ''%20'' else [c]) s)) (Some ''a b'')
     = ''http://145.239.87.46:8000/product?next_product_token=a%20b''"
    by (simp add: BASE_URL_def)
  from request_url_of_token
    [where quote = "\<lambda>s. s" and u = url_B and srv = shop and tok = "Some ''B''"
       and w = empty_world] g
  have "url_B = request_url (\<lambda>s. s) (Some ''B'')"
    by (simp add: empty_world_def)
  with 1 g show ?thesis by simp
qed

section \<open>A chain served without failure\<close>

lemma iteration_last:
  assumes "answers (srv (requests (io st)) (request_url q (token st))) p"
    and "product_id p = Some i" and "\<not> truthy (next_product_token p)"
  shows "\<exists>st'. iteration q srv st = (True, st') \<and> products st' = products st @ [p]
           \<and> token st' = next_product_token p \<and> requests (io st') = Suc (requests (io st))"
  using assms by (simp add: iteration_def fetch_product_answers)

lemma iteration_two:
  assumes "answers (srv (requests (io st)) (request_url q (token st))) p"
    and "product_id p = Some i" and "truthy (next_product_token p)"
    and "answers (srv (Suc (requests (io st))) (request_url q (next_product_token p))) p'"
    and "product_id p' = Some i'"
  shows "\<exists>st'. iteration q srv st = (\<not> truthy (next_product_token p'), st')
           \<and> products st' = products st @ [p, p']
           \<and> token st' = next_product_token p'
           \<and> requests (io st') = Suc (Suc (requests (io st)))"
  using assms by (simp add: iteration_def fetch_product_answers Let_def)

lemma fetch_loop_chain:
  "chain_served q srv (requests (io st)) (token st) pages \<Longrightarrow>
   (length pages + 1) div 2 \<le> fuel \<Longrightarrow>
   \<exists>st'. fetch_loop fuel q srv st = Some st' \<and> products st' = products st @ pages
     \<and> token st' = next_product_token (last pages)
     \<and> requests (io st') = requests (io st) + length pages"
proof (induction pages arbitrary: st fuel rule: induct_list012)
  case 1
  then show ?case by simp
next
  case (2 p)
  then obtain f where f: "fuel = Suc f" by (cases fuel) auto
  from 2 obtain i where "product_id p = Some i" by auto
  with 2 iteration_last [where srv = srv and st = st and q = q and p = p and i = i]
  show ?case
    by (auto simp: f)
next
  case (3 p p' ps)
  then obtain f where f: "fuel = Suc f" and fl: "(length ps + 1) div 2 \<le> f"
    by (cases fuel) auto
  from 3(3) obtain i where i: "product_id p = Some i" by auto
  have a: "answers (srv (requests (io st)) (request_url q (token st))) p"
    and t: "truthy (next_product_token p)"
    and rest: "chain_served q srv (Suc (requests (io st))) (next_product_token p) (p' # ps)"
    using 3(3) by auto
  show ?case
  proof (cases ps)
    case Nil
    with rest obtain i' where "product_id p' = Some i'"
      and "answers (srv (Suc (requests (io st))) (request_url q (next_product_token p))) p'"
      and "\<not> truthy (next_product_token p')" by auto
    with iteration_two
      [where srv = srv and st = st and q = q and p' = p' and i' = i', OF a i t]
    show ?thesis
      by (auto simp: f Nil)
  next
    case (Cons p'' ps')
    with rest obtain i' where i': "product_id p' = Some i'"
      and a': "answers (srv (Suc (requests (io st))) (request_url q (next_product_token p))) p'"
      and t': "truthy (next_product_token p')"
      and rest': "chain_served q srv (Suc (Suc (requests (io st)))) (next_product_token p') ps"
      by auto
    from iteration_two [where srv = srv and st = st and q = q, OF a i t a' i'] t'
    obtain st1 where
      it: "iteration q srv st = (False, st1)" and p1: "products st1 = products st @ [p, p']"
      and t1: "token st1 = next_product_token p'"
      and r1: "requests (io st1) = Suc (Suc (requests (io st)))" by auto
    from rest' have "chain_served q srv (requests (io st1)) (token st1) ps"
      by (simp add: t1 r1)
    from 3(1) [OF this fl] obtain st' where
      "fetch_loop f q srv st1 = Some st'" "products st' = products st1 @ ps"
      "token st' = next_product_token (last ps)"
      "requests (io st') = requests (io st1) + length ps" by auto
    then show ?thesis
      by (simp add: f it p1 r1 Cons)
  qed
qed

lemma chain_served_last:
  "chain_served q srv n tok pages \<Longrightarrow> \<not> truthy (next_product_token (last pages))"
  by (induction q srv n tok pages rule: chain_served.induct) auto

text \<open>
  C1, as the claim states it, fails: the two pages of \<open>twins\<close> form a finite chain
  that is served without failure, and the collection returned holds the identifier 7
  twice.
\<close>

theorem unique_identifiers_counterexample:
  "chain_served (\<lambda>s. s) twins 0 None
     [page 7 ''Fashion'' (Some ''B''), page 7 ''Toys & Games'' None]
   \<and> map_option fst (fetch_all_products_parallel 1 (\<lambda>s. s) twins) =
       Some [page 7 ''Fashion'' (Some ''B''), page 7 ''Toys & Games'' None]
   \<and> \<not> distinct (map product_id
         [page 7 ''Fashion'' (Some ''B''), page 7 ''Toys & Games'' None])"
  by (simp add: fetch_all_products_parallel_def initial_def iteration_def fetch_product_def
      RETRY_LIMIT_def INITIAL_RETRY_DELAY_def numeral_eq_Suc twins_def ok_def
      page_def try_body_def raise_for_status_def request_url_def BASE_URL_def
      get_event_def print_def say_def answers_def)

text \<open>
  C1, amended. When the server serves a finite chain of pages without failure, the
  traversal returns the pages of the chain, one entry per page and in the order of the
  chain: as many entries as pages, and every identifier as often as the pages of the
  chain carry it. So every identifier occurs exactly once in the result if and only if
  the pages of the chain carry pairwise distinct identifiers. The loop needs one round
  for two pages: one is fetched directly, the next one through the executor.
\<close>

theorem fetch_all_collects_chain:
  assumes "chain_served quote srv 0 None pages"
    and "(length pages + 1) div 2 \<le> fuel"
  shows "\<exists>result w. fetch_all_products_parallel fuel quote srv = Some (result, w)
           \<and> result = pages \<and> length result = length pages
           \<and> (\<forall>i. count_list (map product_id result) i = count_list (map product_id pages) i)
           \<and> distinct (map product_id result) = distinct (map product_id pages)"
proof -
  have "chain_served quote srv (requests (io initial)) (token initial) pages"
    using assms(1) by (simp add: initial_def)
  from fetch_loop_chain [OF this assms(2)] obtain st' where
    "fetch_loop fuel quote srv initial = Some st'" "products st' = products initial @ pages"
    by auto
  then show ?thesis
    by (simp add: fetch_all_products_parallel_def initial_def)
qed

theorem fetch_all_collects_chain_witness:
  "\<exists>w. fetch_all_products_parallel 2 (\<lambda>s. s) shop =
     Some ([page 1 ''Fashion'' (Some ''B''), page 2 ''Toys & Games'' (Some ''C''),
            page 3 ''Fashion'' None], w)"
  using fetch_all_collects_chain
    [where quote = "\<lambda>s. s" and srv = shop and fuel = 2
       and pages = "[page 1 ''Fashion'' (Some ''B''), page 2 ''Toys & Games'' (Some ''C''),
                     page 3 ''Fashion'' None]"]
  by (simp add: answers_def shop_def ok_def page_def request_url_def BASE_URL_def
      url_B_def url_C_def)

text \<open>
  C6. A chain of N pages whose last page has no token (absent or empty) makes the loop
  end, from whatever state the chain is entered: exactly the N pages are appended,
  exactly N requests are made, and the token left is the empty one of the last page. A
  chain of odd length ends at the direct fetch, one of even length at the awaited
  future; \<open>(N + 1) div 2\<close> rounds are enough in both cases.
\<close>

theorem fetch_loop_stops_at_last_page:
  assumes "chain_served quote srv (requests (io st)) (token st) pages"
    and "(length pages + 1) div 2 \<le> fuel"
  shows "\<exists>st'. fetch_loop fuel quote srv st = Some st'
           \<and> products st' = products st @ pages
           \<and> length (products st') = length (products st) + length pages
           \<and> requests (io st') = requests (io st) + length pages
           \<and> \<not> truthy (token st')"
proof -
  from fetch_loop_chain [OF assms] obtain st' where
    "fetch_loop fuel quote srv st = Some st'" "products st' = products st @ pages"
    "token st' = next_product_token (last pages)"
    "requests (io st') = requests (io st) + length pages"
    by auto
  with chain_served_last [OF assms(1)] show ?thesis by simp
qed

theorem fetch_loop_stops_at_last_page_witness:
  "(\<exists>st'. fetch_loop 1 (\<lambda>s. s) single initial = Some st'
       \<and> products st' = [page 1 ''Fashion'' (Some [])] \<and> requests (io st') = 1)
   \<and> (\<exists>st'. fetch_loop 1 (\<lambda>s. s) twins initial = Some st'
       \<and> products st' = [page 7 ''Fashion'' (Some ''B''), page 7 ''Toys & Games'' None]
       \<and> requests (io st') = 2)"
proof -
  have "chain_served (\<lambda>s. s) single (requests (io initial)) (token initial)
          [page 1 ''Fashion'' (Some [])]"
    by (simp add: answers_def single_def ok_def page_def initial_def)
  from fetch_loop_stops_at_last_page [OF this, of 1]
  have 1: "\<exists>st'. fetch_loop 1 (\<lambda>s. s) single initial = Some st'
       \<and> products st' = [page 1 ''Fashion'' (Some [])] \<and> requests (io st') = 1"
    by (auto simp add: initial_def simp del: fetch_loop.simps)
  have "chain_served (\<lambda>s. s) twins (requests (io initial)) (token initial)
          [page 7 ''Fashion'' (Some ''B''), page 7 ''Toys & Games'' None]"
    by (simp add: answers_def twins_def ok_def page_def initial_def request_url_def
        BASE_URL_def)
  from fetch_loop_stops_at_last_page [OF this, of 1]
  have 2: "\<exists>st'. fetch_loop 1 (\<lambda>s. s) twins initial = Some st'
       \<and> products st' = [page 7 ''Fashion'' (Some ''B''), page 7 ''Toys & Games'' None]
       \<and> requests (io st') = 2"
    by (auto simp add: initial_def simp del: fetch_loop.simps)
  from 1 2 show ?thesis by (simp del: fetch_loop.simps)
qed

section \<open>A token whose fetch fails\<close>



lemma print_simps [simp]:
  "requests (print l w) = requests w" "trace (print l w) = trace w @ [Print l]"
  by (simp_all add: print_def)







section \<open>The list of products only grows\<close>

lemma for_futures_appends: "\<exists>ys. products (for_futures fs st) = products st @ ys"
proof (induction fs arbitrary: st)
  case Nil
  show ?case by simp
next
  case (Cons f fs)
  show ?case
  proof (cases f)
    case (Inl e)
    with Cons.IH [of "say (FutureError e) st"] show ?thesis by simp
  next
    case (Inr result)
    let ?st1 = "st\<lparr>products := products st @ [result]\<rparr>"
    show ?thesis
    proof (cases "product_id result")
      case None
      with Inr Cons.IH [of "say (FutureError (KeyError ''product_id'')) ?st1"]
      show ?thesis by auto
    next
      case (Some i)
      let ?st3 = "(say (Added i (length (products ?st1))) ?st1)
                    \<lparr>token := next_product_token result\<rparr>"
      from Cons.IH [of ?st3] Inr Some show ?thesis
        by (auto simp: Let_def)
    qed
  qed
qed

lemma for_futures_absorbs:
  "\<exists>ys. products (for_futures (Inr result # fs) st) = products st @ [result] @ ys"
proof (cases "product_id result")
  case None
  with for_futures_appends
    [of fs "say (FutureError (KeyError ''product_id'')) (st\<lparr>products := products st @ [result]\<rparr>)"]
  show ?thesis by auto
next
  case (Some i)
  let ?st1 = "st\<lparr>products := products st @ [result]\<rparr>"
  let ?st3 = "(say (Added i (length (products ?st1))) ?st1)
                \<lparr>token := next_product_token result\<rparr>"
  from for_futures_appends [of fs ?st3] Some show ?thesis
    by (auto simp: Let_def)
qed

lemma iteration_absorbs:
  assumes "fetch_product q srv (token st) (io st) = (Inr pd, w)"
  shows "\<exists>ys. products (snd (iteration q srv st)) = products st @ [pd] @ ys"
proof (cases "product_id pd")
  case None
  with assms show ?thesis by (simp add: iteration_def)
next
  case (Some i)
  let ?st3 = "(say (Added i (Suc (length (products st))))
                 (st\<lparr>products := products st @ [pd], io := w\<rparr>))
                \<lparr>token := next_product_token pd\<rparr>"
  show ?thesis
  proof (cases "truthy (next_product_token pd)")
    case False
    with assms Some show ?thesis by (simp add: iteration_def Let_def)
  next
    case True
    obtain fs w2 where s: "submit_all q srv [token ?st3] (io ?st3) = (fs, w2)"
      by (cases "submit_all q srv [token ?st3] (io ?st3)")
    from for_futures_appends [of fs "?st3\<lparr>io := w2\<rparr>"]
    obtain ys where "products (for_futures fs (?st3\<lparr>io := w2\<rparr>)) = products st @ [pd] @ ys"
      by auto
    with assms Some True s show ?thesis
      by (simp add: iteration_def Let_def del: submit_all.simps)
  qed
qed

text \<open>
  C5, as the claim states it, fails: two pages share the identifier 7, both are kept, and
  the size of the collection after the second absorb is 2.
\<close>

theorem absorb_counterexample:
  "fetch_all_products_parallel 1 (\<lambda>s. s) twins =
     Some ([page 7 ''Fashion'' (Some ''B''), page 7 ''Toys & Games'' None],
           \<lparr>requests = 2,
              trace = [Get BASE_URL, Print (Added 7 1), Get url_B, Print (Added 7 2),
                       Print AllFetched]\<rparr>)
   \<and> map product_id [page 7 ''Fashion'' (Some ''B''), page 7 ''Toys & Games'' None] =
       [Some 7, Some 7]"
  by (simp add: fetch_all_products_parallel_def initial_def iteration_def fetch_product_def
      RETRY_LIMIT_def INITIAL_RETRY_DELAY_def numeral_eq_Suc twins_def ok_def
      page_def try_body_def raise_for_status_def request_url_def BASE_URL_def url_B_def
      get_event_def print_def say_def)

text \<open>
  C5, amended. Absorbing a page appends it to the list of products, whatever identifiers
  the list holds already: the list before the absorb, followed by the new page, is a
  prefix of the list after it, at the direct fetch (line 65) and at the awaited future
  (line 87) alike. Nothing is overwritten, and a repeated identifier appears once for
  every page that carries it.
\<close>

theorem absorb_appends:
  "(fetch_product quote srv (token st) (io st) = (Inr product_data, w) \<longrightarrow>
      prefix (products st @ [product_data]) (products (snd (iteration quote srv st))))
   \<and> prefix (products st @ [result]) (products (for_futures (Inr result # futures) st))"
  using iteration_absorbs [of quote srv st product_data w]
    for_futures_absorbs [of result futures st]
  by (auto simp: prefix_def simp del: for_futures.simps)

theorem absorb_appends_witness:
  "prefix [page 7 ''Fashion'' (Some ''B''), page 7 ''Toys & Games'' None]
     (products (snd (iteration (\<lambda>s. s) twins
        \<lparr>products = [page 7 ''Fashion'' (Some ''B'')], token = Some ''B'',
           io = \<lparr>requests = 1, trace = []\<rparr>\<rparr>)))"
proof -
  let ?st = "\<lparr>products = [page 7 ''Fashion'' (Some ''B'')], token = Some ''B'',
               io = \<lparr>requests = 1, trace = []\<rparr>\<rparr>"
  have "fetch_product (\<lambda>s. s) twins (token ?st) (io ?st) =
          (Inr (page 7 ''Toys & Games'' None), \<lparr>requests = 2, trace = [Get url_B]\<rparr>)"
    by (simp add: fetch_product_def RETRY_LIMIT_def numeral_eq_Suc twins_def ok_def
        try_body_def raise_for_status_def request_url_def BASE_URL_def url_B_def
        get_event_def)
  with absorb_appends
    [where quote = "\<lambda>s. s" and srv = twins and st = ?st
       and product_data = "page 7 ''Toys & Games'' None"
       and w = "\<lparr>requests = 2, trace = [Get url_B]\<rparr>"]
  show ?thesis by simp
qed

section \<open>Facts about analyze_products\<close>

lemma fashion_step_cases:
  "fashion_step c p a = Inr a' \<Longrightarrow>
   toys_games_count a' = toys_games_count a
   \<and> toys_games_total_price a' = toys_games_total_price a
   \<and> (most_expensive_fashion a' = most_expensive_fashion a
      \<or> (c = ''Fashion'' \<and> (\<exists>pr. price p = Some pr \<and> mef_price (most_expensive_fashion a) < pr
            \<and> most_expensive_fashion a' =
                \<lparr>mef_id = product_id p, mef_name = product_name p, mef_price = pr\<rparr>
            \<and> product_id p \<noteq> None \<and> product_name p \<noteq> None)))"
  by (auto simp: fashion_step_def split: if_splits option.splits)

lemma toys_step_cases:
  "toys_step c p a = Inr a' \<Longrightarrow>
   most_expensive_fashion a' = most_expensive_fashion a
   \<and> (c \<noteq> ''Toys & Games'' \<longrightarrow> toys_games_count a' = toys_games_count a
         \<and> toys_games_total_price a' = toys_games_total_price a)"
  by (auto simp: toys_step_def split: if_splits option.splits)

lemma fashion_step_error: "fashion_step c p a = Inl e \<Longrightarrow> \<exists>k. e = KeyError k"
  by (auto simp: fashion_step_def split: if_splits option.splits)

lemma toys_step_error: "toys_step c p a = Inl e \<Longrightarrow> \<exists>k. e = KeyError k"
  by (auto simp: toys_step_def split: if_splits option.splits)

lemma fashion_step_returns: "has_keys p \<Longrightarrow> \<exists>a'. fashion_step c p a = Inr a'"
  by (auto simp: fashion_step_def has_keys_def)

lemma toys_step_returns: "has_keys p \<Longrightarrow> \<exists>a'. toys_step c p a = Inr a'"
  by (auto simp: toys_step_def has_keys_def)

lemma analyze_loop_error: "analyze_loop ps a = Inl e \<Longrightarrow> \<exists>k. e = KeyError k"
proof (induction ps arbitrary: a)
  case Nil
  then show ?case by simp
next
  case (Cons p ps)
  then show ?case
    by (auto simp: Let_def split: option.splits sum.splits
        dest: fashion_step_error toys_step_error)
qed

lemma analyze_loop_returns: "list_all has_keys ps \<Longrightarrow> \<exists>a'. analyze_loop ps a = Inr a'"
proof (induction ps arbitrary: a)
  case Nil
  show ?case by simp
next
  case (Cons p ps)
  then have k: "has_keys p" and r: "list_all has_keys ps" by simp_all
  from k obtain c where c: "category p = Some c" by (auto simp: has_keys_def)
  let ?a1 = "a\<lparr>category_counts := (category_counts a)
               (c \<mapsto> (case category_counts a c of None \<Rightarrow> 0 | Some k \<Rightarrow> k) + 1)\<rparr>"
  from fashion_step_returns [OF k] obtain a2 where a2: "fashion_step c p ?a1 = Inr a2"
    by blast
  from toys_step_returns [OF k] obtain a3 where a3: "toys_step c p a2 = Inr a3"
    by blast
  from Cons.IH [OF r, of a3] c a2 a3 show ?case
    by (simp add: Let_def)
qed

lemma analyze_loop_no_toys:
  "analyze_loop ps a = Inr a' \<Longrightarrow> \<forall>p\<in>set ps. category p \<noteq> Some ''Toys & Games'' \<Longrightarrow>
   toys_games_count a' = toys_games_count a"
proof (induction ps arbitrary: a)
  case Nil
  then show ?case by simp
next
  case (Cons p ps)
  from Cons.prems(1) obtain c a2 a3 where c: "category p = Some c"
    and a2: "fashion_step c p (a\<lparr>category_counts := (category_counts a)
               (c \<mapsto> (case category_counts a c of None \<Rightarrow> 0 | Some k \<Rightarrow> k) + 1)\<rparr>) = Inr a2"
    and a3: "toys_step c p a2 = Inr a3" and rest: "analyze_loop ps a3 = Inr a'"
    by (auto simp: Let_def split: option.splits sum.splits)
  from Cons.prems(2) c have "c \<noteq> ''Toys & Games''" by auto
  with toys_step_cases [OF a3] fashion_step_cases [OF a2]
  have "toys_games_count a3 = toys_games_count a" by simp
  moreover from Cons.IH [OF rest] Cons.prems(2)
  have "toys_games_count a' = toys_games_count a3" by simp
  ultimately show ?case by simp
qed

lemma analyze_loop_fashion:
  "analyze_loop ps a = Inr a' \<Longrightarrow>
   most_expensive_fashion a = sentinel \<or> selected_from S (most_expensive_fashion a) \<Longrightarrow>
   most_expensive_fashion a' = sentinel \<or> selected_from (S \<union> set ps) (most_expensive_fashion a')"
proof (induction ps arbitrary: a S)
  case Nil
  then show ?case by simp
next
  case (Cons p ps)
  from Cons.prems(1) obtain c a2 a3 where c: "category p = Some c"
    and a2: "fashion_step c p (a\<lparr>category_counts := (category_counts a)
               (c \<mapsto> (case category_counts a c of None \<Rightarrow> 0 | Some k \<Rightarrow> k) + 1)\<rparr>) = Inr a2"
    and a3: "toys_step c p a2 = Inr a3" and rest: "analyze_loop ps a3 = Inr a'"
    by (auto simp: Let_def split: option.splits sum.splits)
  have low: "- 1 \<le> mef_price (most_expensive_fashion a)"
    using Cons.prems(2) by (auto simp: sentinel_def selected_from_def)
  have "most_expensive_fashion a3 = sentinel
        \<or> selected_from (insert p S) (most_expensive_fashion a3)"
    using fashion_step_cases [OF a2] toys_step_cases [OF a3] Cons.prems(2) c low
    by (auto simp: selected_from_def)
  from Cons.IH [OF rest this] show ?case by simp
qed

lemma analyze_loop_no_fashion:
  "analyze_loop ps a = Inr a' \<Longrightarrow> \<forall>p\<in>set ps. category p \<noteq> Some ''Fashion'' \<Longrightarrow>
   most_expensive_fashion a' = most_expensive_fashion a"
proof (induction ps arbitrary: a)
  case Nil
  then show ?case by simp
next
  case (Cons p ps)
  from Cons.prems(1) obtain c a2 a3 where c: "category p = Some c"
    and a2: "fashion_step c p (a\<lparr>category_counts := (category_counts a)
               (c \<mapsto> (case category_counts a c of None \<Rightarrow> 0 | Some k \<Rightarrow> k) + 1)\<rparr>) = Inr a2"
    and a3: "toys_step c p a2 = Inr a3" and rest: "analyze_loop ps a3 = Inr a'"
    by (auto simp: Let_def split: option.splits sum.splits)
  from Cons.prems(2) c have "c \<noteq> ''Fashion''" by auto
  with toys_step_cases [OF a3] fashion_step_cases [OF a2]
  have "most_expensive_fashion a3 = most_expensive_fashion a" by auto
  moreover from Cons.IH [OF rest] Cons.prems(2)
  have "most_expensive_fashion a' = most_expensive_fashion a3" by simp
  ultimately show ?case by simp
qed

lemma analyze_products_error: "analyze_products ps = Inl e \<Longrightarrow> \<exists>k. e = KeyError k"
  by (auto simp: analyze_products_def truediv_def split: sum.splits if_splits
      dest: analyze_loop_error)

lemma analyze_products_returns:
  "list_all has_keys ps \<Longrightarrow> \<exists>c m avg. analyze_products ps = Inr (length ps, c, m, avg)"
proof -
  assume "list_all has_keys ps"
  from analyze_loop_returns [OF this] obtain a' where
    "analyze_loop ps \<lparr>category_counts = Map.empty, most_expensive_fashion = sentinel,
                        toys_games_total_price = 0, toys_games_count = 0\<rparr> = Inr a'"
    by blast
  then show ?thesis
    by (simp add: analyze_products_def truediv_def)
qed

text \<open>
  C9. For a list of products without a \<^verbatim>\<open>Toys & Games\<close> product the average is 0 and
  no division by zero happens: the count is zero, the guard takes the other branch.
  \<open>analyze_products\<close> returns whenever the products carry their keys; it can only raise
  a \<open>KeyError\<close>.
\<close>

theorem analyze_products_no_toys:
  assumes "\<forall>p\<in>set ps. category p \<noteq> Some ''Toys & Games''"
  shows "analyze_products ps \<noteq> Inl ZeroDivisionError
         \<and> (\<forall>n c m avg. analyze_products ps = Inr (n, c, m, avg) \<longrightarrow> avg = 0)
         \<and> (list_all has_keys ps \<longrightarrow> (\<exists>c m. analyze_products ps = Inr (length ps, c, m, 0)))"
proof -
  have 1: "analyze_products ps \<noteq> Inl ZeroDivisionError"
    using analyze_products_error [of ps ZeroDivisionError] by auto
  have 2: "avg = 0" if r: "analyze_products ps = Inr (n, c, m, avg)" for n c m avg
  proof -
    from r obtain a' where
      l: "analyze_loop ps \<lparr>category_counts = Map.empty, most_expensive_fashion = sentinel,
                           toys_games_total_price = 0, toys_games_count = 0\<rparr> = Inr a'"
      by (auto simp: analyze_products_def split: sum.splits)
    from analyze_loop_no_toys [OF l assms] have "toys_games_count a' = 0" by simp
    with r l show ?thesis by (simp add: analyze_products_def)
  qed
  have 3: "\<exists>c m. analyze_products ps = Inr (length ps, c, m, 0)" if "list_all has_keys ps"
  proof -
    from analyze_products_returns [OF that] obtain c m avg where
      r: "analyze_products ps = Inr (length ps, c, m, avg)" by blast
    with 2 [OF r] show ?thesis by blast
  qed
  from 1 2 3 show ?thesis by blast
qed

theorem analyze_products_no_toys_witness:
  "\<exists>c m. analyze_products [coat, refund] = Inr (length [coat, refund], c, m, 0)"
proof -
  have "\<forall>p\<in>set [coat, refund]. category p \<noteq> Some ''Toys & Games''"
    by (simp add: coat_def refund_def)
  moreover have "list_all has_keys [coat, refund]"
    by (simp add: has_keys_def coat_def refund_def)
  ultimately show ?thesis
    using analyze_products_no_toys [of "[coat, refund]"] by blast
qed

lemma analyze_loop_append:
  "analyze_loop (xs @ ys) a =
     (case analyze_loop xs a of Inl e \<Rightarrow> Inl e | Inr a1 \<Rightarrow> analyze_loop ys a1)"
  by (induction xs arbitrary: a) (auto simp: Let_def split: option.splits sum.splits)

lemma fashion_step_selects:
  "fashion_step ''Fashion'' p a = Inr a2 \<Longrightarrow> price p = Some pr \<Longrightarrow>
   mef_price (most_expensive_fashion a) < pr \<Longrightarrow>
   most_expensive_fashion a2 =
     \<lparr>mef_id = product_id p, mef_name = product_name p, mef_price = pr\<rparr>"
  by (auto simp: fashion_step_def split: if_splits option.splits)

lemma fashion_step_price:
  "fashion_step c p a = Inr a2 \<Longrightarrow>
   mef_price (most_expensive_fashion a) \<le> mef_price (most_expensive_fashion a2)
   \<and> (c = ''Fashion'' \<longrightarrow>
        (\<exists>r. price p = Some r \<and> r \<le> mef_price (most_expensive_fashion a2)))"
  by (auto simp: fashion_step_def split: if_splits option.splits)

lemma analyze_loop_upper:
  "analyze_loop ps a = Inr a' \<Longrightarrow>
   mef_price (most_expensive_fashion a) \<le> mef_price (most_expensive_fashion a')
   \<and> (\<forall>p\<in>set ps. category p = Some ''Fashion'' \<longrightarrow>
         (\<exists>r. price p = Some r \<and> r \<le> mef_price (most_expensive_fashion a')))"
proof (induction ps arbitrary: a)
  case Nil
  then show ?case by simp
next
  case (Cons p ps)
  from Cons.prems(1) obtain c a2 a3 where c: "category p = Some c"
    and a2: "fashion_step c p (a\<lparr>category_counts := (category_counts a)
               (c \<mapsto> (case category_counts a c of None \<Rightarrow> 0 | Some k \<Rightarrow> k) + 1)\<rparr>) = Inr a2"
    and a3: "toys_step c p a2 = Inr a3" and rest: "analyze_loop ps a3 = Inr a'"
    by (auto simp: Let_def split: option.splits sum.splits)
  from toys_step_cases [OF a3]
  have m3: "most_expensive_fashion a3 = most_expensive_fashion a2" by simp
  from fashion_step_price [OF a2]
  have up: "mef_price (most_expensive_fashion a) \<le> mef_price (most_expensive_fashion a2)"
    and here: "c = ''Fashion'' \<longrightarrow>
        (\<exists>r. price p = Some r \<and> r \<le> mef_price (most_expensive_fashion a2))"
    by simp_all
  from Cons.IH [OF rest]
  have up': "mef_price (most_expensive_fashion a3) \<le> mef_price (most_expensive_fashion a')"
    and rest': "\<forall>p\<in>set ps. category p = Some ''Fashion'' \<longrightarrow>
         (\<exists>r. price p = Some r \<and> r \<le> mef_price (most_expensive_fashion a'))"
    by simp_all
  from up up' m3
  have 1: "mef_price (most_expensive_fashion a) \<le> mef_price (most_expensive_fashion a')"
    by simp
  have 2: "category p = Some ''Fashion'' \<longrightarrow>
         (\<exists>r. price p = Some r \<and> r \<le> mef_price (most_expensive_fashion a'))"
    using here c up' m3 by auto
  from 1 2 rest' show ?case by simp
qed

lemma analyze_loop_keeps:
  "analyze_loop ps a = Inr a' \<Longrightarrow>
   \<forall>p\<in>set ps. category p = Some ''Fashion'' \<longrightarrow>
     (\<forall>r. price p = Some r \<longrightarrow> r \<le> mef_price (most_expensive_fashion a)) \<Longrightarrow>
   most_expensive_fashion a' = most_expensive_fashion a"
proof (induction ps arbitrary: a)
  case Nil
  then show ?case by simp
next
  case (Cons p ps)
  from Cons.prems(1) obtain c a2 a3 where c: "category p = Some c"
    and a2: "fashion_step c p (a\<lparr>category_counts := (category_counts a)
               (c \<mapsto> (case category_counts a c of None \<Rightarrow> 0 | Some k \<Rightarrow> k) + 1)\<rparr>) = Inr a2"
    and a3: "toys_step c p a2 = Inr a3" and rest: "analyze_loop ps a3 = Inr a'"
    by (auto simp: Let_def split: option.splits sum.splits)
  have "most_expensive_fashion a2 = most_expensive_fashion a"
    using fashion_step_cases [OF a2] Cons.prems(2) c by auto
  with toys_step_cases [OF a3]
  have m3: "most_expensive_fashion a3 = most_expensive_fashion a" by simp
  with Cons.prems(2) Cons.IH [OF rest] show ?case by simp
qed

lemma analyze_loop_first_maximum:
  assumes l: "analyze_loop (xs @ q # ys) a = Inr a'"
    and s: "most_expensive_fashion a = sentinel"
    and q: "category q = Some ''Fashion''" "price q = Some best" "- 1 < best"
    and before: "\<forall>p\<in>set xs. category p = Some ''Fashion'' \<longrightarrow>
                   (\<forall>r. price p = Some r \<longrightarrow> r < best)"
    and after: "\<forall>p\<in>set ys. category p = Some ''Fashion'' \<longrightarrow>
                   (\<forall>r. price p = Some r \<longrightarrow> r \<le> best)"
  shows "most_expensive_fashion a' =
           \<lparr>mef_id = product_id q, mef_name = product_name q, mef_price = best\<rparr>"
proof -
  from l obtain a1 where l1: "analyze_loop xs a = Inr a1"
    and l2: "analyze_loop (q # ys) a1 = Inr a'"
    by (auto simp: analyze_loop_append split: sum.splits)
  from analyze_loop_fashion [OF l1, of "{}"] s
  have "most_expensive_fashion a1 = sentinel
        \<or> selected_from (set xs) (most_expensive_fashion a1)" by simp
  with before q(3) have low: "mef_price (most_expensive_fashion a1) < best"
    by (auto simp: sentinel_def selected_from_def)
  from l2 q(1) obtain a2 a3 where
    a2: "fashion_step ''Fashion'' q (a1\<lparr>category_counts := (category_counts a1)
               (''Fashion'' \<mapsto> (case category_counts a1 ''Fashion'' of
                                   None \<Rightarrow> 0 | Some k \<Rightarrow> k) + 1)\<rparr>) = Inr a2"
    and a3: "toys_step ''Fashion'' q a2 = Inr a3" and rest: "analyze_loop ys a3 = Inr a'"
    by (auto simp: Let_def split: option.splits sum.splits)
  from fashion_step_selects [OF a2 q(2)] low
  have "most_expensive_fashion a2 =
          \<lparr>mef_id = product_id q, mef_name = product_name q, mef_price = best\<rparr>" by simp
  with toys_step_cases [OF a3]
  have m3: "most_expensive_fashion a3 =
          \<lparr>mef_id = product_id q, mef_name = product_name q, mef_price = best\<rparr>" by simp
  from after m3 have "\<forall>p\<in>set ys. category p = Some ''Fashion'' \<longrightarrow>
     (\<forall>r. price p = Some r \<longrightarrow> r \<le> mef_price (most_expensive_fashion a3))"
    by simp
  from analyze_loop_keeps [OF rest this] m3 show ?thesis by simp
qed

text \<open>
  C10. \<open>most_expensive_fashion\<close> starts as the sentinel of price -1 and is replaced by
  every Fashion product whose price is strictly greater than the one it holds. So the
  result is the most expensive Fashion record: its price bounds the price of every
  Fashion product of the list, and when the greatest Fashion price is above -1 the
  result is the record built from the first product that has it. Otherwise the result is
  the sentinel: a record built from a product whose price is at most -1 is never
  returned, and without a Fashion product the result is the sentinel, which \<open>main\<close>
  reports as no product found.
\<close>

theorem analyze_products_fashion_sentinel:
  "(analyze_products ps = Inr (n, c, m, avg) \<longrightarrow>
      (m = sentinel \<or> selected_from (set ps) m)
      \<and> (\<forall>p\<in>set ps. category p = Some ''Fashion'' \<longrightarrow>
            (\<exists>r. price p = Some r \<and> r \<le> mef_price m))
      \<and> (ps = xs @ q # ys \<and> category q = Some ''Fashion'' \<and> price q = Some best
           \<and> - 1 < best
           \<and> (\<forall>p\<in>set xs. category p = Some ''Fashion'' \<longrightarrow>
                 (\<forall>r. price p = Some r \<longrightarrow> r < best))
           \<and> (\<forall>p\<in>set ys. category p = Some ''Fashion'' \<longrightarrow>
                 (\<forall>r. price p = Some r \<longrightarrow> r \<le> best))
          \<longrightarrow> m = \<lparr>mef_id = product_id q, mef_name = product_name q, mef_price = best\<rparr>)
      \<and> (pr \<le> - 1 \<longrightarrow> m \<noteq> \<lparr>mef_id = Some i, mef_name = Some nm, mef_price = pr\<rparr>)
      \<and> ((\<forall>p\<in>set ps. category p \<noteq> Some ''Fashion'') \<longrightarrow> m = sentinel))
   \<and> fashion_report sentinel = Inr NoFashionProducts
   \<and> (list_all has_keys ps \<longrightarrow> (\<exists>c m avg. analyze_products ps = Inr (length ps, c, m, avg)))"
proof -
  let ?a = "\<lparr>category_counts = Map.empty, most_expensive_fashion = sentinel,
              toys_games_total_price = 0, toys_games_count = 0\<rparr>"
  have a: "(m = sentinel \<or> selected_from (set ps) m)
      \<and> (\<forall>p\<in>set ps. category p = Some ''Fashion'' \<longrightarrow>
            (\<exists>r. price p = Some r \<and> r \<le> mef_price m))
      \<and> (ps = xs @ q # ys \<and> category q = Some ''Fashion'' \<and> price q = Some best
           \<and> - 1 < best
           \<and> (\<forall>p\<in>set xs. category p = Some ''Fashion'' \<longrightarrow>
                 (\<forall>r. price p = Some r \<longrightarrow> r < best))
           \<and> (\<forall>p\<in>set ys. category p = Some ''Fashion'' \<longrightarrow>
                 (\<forall>r. price p = Some r \<longrightarrow> r \<le> best))
          \<longrightarrow> m = \<lparr>mef_id = product_id q, mef_name = product_name q, mef_price = best\<rparr>)
      \<and> (pr \<le> - 1 \<longrightarrow> m \<noteq> \<lparr>mef_id = Some i, mef_name = Some nm, mef_price = pr\<rparr>)
      \<and> ((\<forall>p\<in>set ps. category p \<noteq> Some ''Fashion'') \<longrightarrow> m = sentinel)"
    if r: "analyze_products ps = Inr (n, c, m, avg)"
  proof -
    from r obtain a' where l: "analyze_loop ps ?a = Inr a'" and m: "m = most_expensive_fashion a'"
      by (auto simp: analyze_products_def split: sum.splits if_splits)
    from analyze_loop_fashion [OF l, of "{}"] m
    have s: "m = sentinel \<or> selected_from (set ps) m" by simp
    from analyze_loop_upper [OF l] m
    have u: "\<forall>p\<in>set ps. category p = Some ''Fashion'' \<longrightarrow>
            (\<exists>r. price p = Some r \<and> r \<le> mef_price m)" by simp
    have f: "m = \<lparr>mef_id = product_id q, mef_name = product_name q, mef_price = best\<rparr>"
      if "ps = xs @ q # ys" "category q = Some ''Fashion''" "price q = Some best" "- 1 < best"
        "\<forall>p\<in>set xs. category p = Some ''Fashion'' \<longrightarrow> (\<forall>r. price p = Some r \<longrightarrow> r < best)"
        "\<forall>p\<in>set ys. category p = Some ''Fashion'' \<longrightarrow> (\<forall>r. price p = Some r \<longrightarrow> r \<le> best)"
    proof -
      from l that(1) have "analyze_loop (xs @ q # ys) ?a = Inr a'" by simp
      from analyze_loop_first_maximum [OF this _ that(2-6)] m show ?thesis by simp
    qed
    from s have low: "pr \<le> - 1 \<longrightarrow> m \<noteq> \<lparr>mef_id = Some i, mef_name = Some nm, mef_price = pr\<rparr>"
      by (auto simp: sentinel_def selected_from_def)
    have none: "m = sentinel" if "\<forall>p\<in>set ps. category p \<noteq> Some ''Fashion''"
      using analyze_loop_no_fashion [OF l that] m by simp
    from s u f low none show ?thesis by blast
  qed
  have b: "fashion_report sentinel = Inr NoFashionProducts"
    by (simp add: fashion_report_def sentinel_def)
  from a b analyze_products_returns [of ps] show ?thesis by blast
qed

theorem analyze_products_fashion_sentinel_witness:
  "(\<exists>c avg. analyze_products [refund] = Inr (length [refund], c, sentinel, avg))
   \<and> fashion_report sentinel = Inr NoFashionProducts
   \<and> (\<exists>c avg. analyze_products [refund, coat, coat\<lparr>product_id := Some 6\<rparr>] =
         Inr (length [refund, coat, coat\<lparr>product_id := Some 6\<rparr>], c,
              \<lparr>mef_id = Some 5, mef_name = Some ''coat'', mef_price = 25\<rparr>, avg))"
proof -
  have "list_all has_keys [refund]"
    by (simp add: has_keys_def refund_def)
  with analyze_products_fashion_sentinel [of "[refund]"]
  obtain c m avg where r: "analyze_products [refund] = Inr (length [refund], c, m, avg)"
    by blast
  with analyze_products_fashion_sentinel [of "[refund]" "length [refund]" c m avg]
  have "m = sentinel \<or> selected_from (set [refund]) m" by blast
  moreover have "\<not> selected_from (set [refund]) m"
    by (simp add: selected_from_def refund_def)
  ultimately have "m = sentinel" by simp
  with r have 1: "\<exists>c avg. analyze_products [refund] = Inr (length [refund], c, sentinel, avg)"
    by blast
  let ?ps = "[refund, coat, coat\<lparr>product_id := Some 6\<rparr>]"
  have "list_all has_keys ?ps"
    by (simp add: has_keys_def refund_def coat_def)
  with analyze_products_fashion_sentinel [of ?ps]
  obtain c' m' avg' where r': "analyze_products ?ps = Inr (length ?ps, c', m', avg')"
    by blast
  have "?ps = [refund] @ coat # [coat\<lparr>product_id := Some 6\<rparr>]
        \<and> category coat = Some ''Fashion'' \<and> price coat = Some 25 \<and> - 1 < (25 :: rat)
        \<and> (\<forall>p\<in>set [refund]. category p = Some ''Fashion'' \<longrightarrow>
              (\<forall>r. price p = Some r \<longrightarrow> r < 25))
        \<and> (\<forall>p\<in>set [coat\<lparr>product_id := Some 6\<rparr>]. category p = Some ''Fashion'' \<longrightarrow>
              (\<forall>r. price p = Some r \<longrightarrow> r \<le> 25))"
    by (simp add: refund_def coat_def)
  with r' analyze_products_fashion_sentinel
    [where ps = ?ps and n = "length ?ps" and c = c' and m = m' and avg = avg'
       and xs = "[refund]" and q = coat and ys = "[coat\<lparr>product_id := Some 6\<rparr>]"
       and best = 25]
  have "m' = \<lparr>mef_id = product_id coat, mef_name = product_name coat, mef_price = 25\<rparr>"
    by blast
  then have "m' = \<lparr>mef_id = Some 5, mef_name = Some ''coat'', mef_price = 25\<rparr>"
    by (simp add: coat_def)
  with r' have 2: "\<exists>c avg. analyze_products ?ps =
         Inr (length ?ps, c, \<lparr>mef_id = Some 5, mef_name = Some ''coat'', mef_price = 25\<rparr>, avg)"
    by blast
  from 1 2 analyze_products_fashion_sentinel [of "[refund]"] show ?thesis by blast
qed

section \<open>The parallel traversal and the sequential one\<close>




lemma wording_Print_Error [simp]: "wording (Print (ErrorOccurred e)) = Print (ErrorOccurred e)"
  by simp







end
